theory Spec2Isabelle
  imports Complex_Main "HOL-Library.AList"
begin

section \<open>Data model of main.py\<close>

text \<open>
  Python strings are modelled as \<open>string\<close>, one \<open>char\<close> per code point below 256.
  Python's unbounded \<open>int\<close> is \<open>int\<close>; the \<open>float\<close> returned by \<open>time.time()\<close> is a
  \<open>real\<close> that the program only stores and never computes with.
\<close>

datatype PoetryStyle = PESSOA | WHITMAN | DICKINSON

fun style_value :: "PoetryStyle \<Rightarrow> string" where
  "style_value PESSOA = ''pessoa''"
| "style_value WHITMAN = ''whitman''"
| "style_value DICKINSON = ''dickinson''"

text \<open>The dataclass \<open>PacketData\<close>; the field \<open>length\<close> is named \<open>length_bytes\<close> here.\<close>

record PacketData =
  src_ip :: string
  dest_ip :: string
  protocol :: string
  length_bytes :: int
  timestamp :: real
  port_src :: "int option"
  port_dst :: "int option"
  flags :: "string option"

text \<open>
  The values that end up in \<open>vars(p)\<close> and in the JSON artifact: \<open>None\<close>, integers,
  floats, strings, lists and dictionaries with string keys (in insertion order).
\<close>

datatype pyval =
    PNone
  | PInt int
  | PFloat real
  | PStr string
  | PList "pyval list"
  | PDict "(string \<times> pyval) list"

text \<open>The dataclass \<open>PoetryArchiveEntry\<close>; \<open>packets\<close> is a list of field dictionaries.\<close>

record PoetryArchiveEntry =
  poetry :: string
  packets :: "pyval list"
  style :: string
  generated_at :: string

text \<open>
  The captured packet is an opaque object whose attributes may be missing. A missing
  attribute is \<open>None\<close> here: \<open>ip\<close> and \<open>transport_layer\<close> are probed with \<open>hasattr\<close>,
  the others are read directly and raise \<open>AttributeError\<close> when absent. A field that
  is present holds a string, as the capture library delivers every field. The label
  \<open>transport_layer\<close> is the exception: on a packet of the capture library the
  attribute is always there and holds Python's \<open>None\<close> when the packet has no
  transport layer, so a present label is \<open>Some None\<close> (Python's \<open>None\<close>) or
  \<open>Some (Some name)\<close>. \<open>layers\<close> is the item lookup \<open>packet[name]\<close> by a string,
  which raises \<open>KeyError\<close> when the layer is not there.
\<close>

record ip_layer =
  src :: "string option"
  dst :: "string option"

record transport_fields =
  srcport :: "string option"
  dstport :: "string option"
  flags_attr :: "string option"

record packet =
  ip :: "ip_layer option"
  transport_layer :: "string option option"
  length_attr :: "string option"
  layers :: "string \<Rightarrow> transport_fields option"

datatype py_error =
    AttributeError string
  | KeyError string
  | ValueError string
  | IndexError
  | ServiceError string
  | OSError string

datatype log_entry = LogError string py_error | LogInfo string

section \<open>Python primitives used by the program\<close>

text \<open>\<open>str.isspace\<close> on code points below 256.\<close>

definition is_space :: "char \<Rightarrow> bool" where
  "is_space c =
     (let n = (of_char c :: nat)
      in (9 \<le> n \<and> n \<le> 13) \<or> (28 \<le> n \<and> n \<le> 32) \<or> n = 133 \<or> n = 160)"

text \<open>\<open>str.strip()\<close> with no argument.\<close>

definition strip :: "string \<Rightarrow> string" where
  "strip s = rev (dropWhile is_space (rev (dropWhile is_space s)))"

definition is_digit :: "char \<Rightarrow> bool" where
  "is_digit c = (let n = (of_char c :: nat) in 48 \<le> n \<and> n \<le> 57)"

definition digit_value :: "char \<Rightarrow> nat" where
  "digit_value c = of_char c - 48"

text \<open>
  The digits of an integer literal after its first digit: more digits, single
  underscores allowed between two digits.
\<close>

fun parse_digits :: "nat \<Rightarrow> string \<Rightarrow> nat option" where
  "parse_digits acc [] = Some acc"
| "parse_digits acc (c # cs) =
     (if is_digit c then parse_digits (acc * 10 + digit_value c) cs
      else if c = CHR ''_'' then
        (case cs of
           [] \<Rightarrow> None
         | d # ds \<Rightarrow>
             if is_digit d then parse_digits (acc * 10 + digit_value d) ds else None)
      else None)"

definition parse_unsigned :: "string \<Rightarrow> nat option" where
  "parse_unsigned s =
     (case s of
        [] \<Rightarrow> None
      | c # cs \<Rightarrow> if is_digit c then parse_digits (digit_value c) cs else None)"

text \<open>
  The whitespace \<open>int(s)\<close> skips around the literal. It is not the set of
  \<open>str.strip()\<close>: the separators U+001C to U+001F are whitespace for \<open>strip\<close> and
  make \<open>int\<close> raise.
\<close>

definition is_int_space :: "char \<Rightarrow> bool" where
  "is_int_space c =
     (let n = (of_char c :: nat)
      in (9 \<le> n \<and> n \<le> 13) \<or> n = 32 \<or> n = 133 \<or> n = 160)"

text \<open>
  The interpreter's limit on the number of digits of a decimal literal
  (\<open>sys.get_int_max_str_digits()\<close>, at its default).
\<close>

definition int_max_str_digits :: nat where
  "int_max_str_digits = 4300"

text \<open>
  \<open>int(s)\<close> on a string, base 10: the whitespace around the literal is skipped, one
  sign is allowed, and a literal of more than \<open>int_max_str_digits\<close> digits is refused;
  \<open>None\<close> stands for the \<open>ValueError\<close>.
\<close>

definition py_int :: "string \<Rightarrow> int option" where
  "py_int s =
     (let literal = rev (dropWhile is_int_space (rev (dropWhile is_int_space s)))
      in if length (filter is_digit literal) > int_max_str_digits then None
         else
           (case literal of
              [] \<Rightarrow> None
            | c # cs \<Rightarrow>
                if c = CHR ''-'' then map_option (\<lambda>n. - int n) (parse_unsigned cs)
                else if c = CHR ''+'' then map_option int (parse_unsigned cs)
                else map_option int (parse_unsigned (c # cs))))"

text \<open>\<open>str(n)\<close> for an integer, as an f-string renders it.\<close>

definition digit_char :: "nat \<Rightarrow> char" where
  "digit_char n = ''0123456789'' ! n"

fun str_nat :: "nat \<Rightarrow> string" where
  "str_nat n =
     (if n < 10 then [digit_char n]
      else str_nat (n div 10) @ [digit_char (n mod 10)])"

declare str_nat.simps [simp del]

definition str_int :: "int \<Rightarrow> string" where
  "str_int i = (if i < 0 then CHR ''-'' # str_nat (nat (- i)) else str_nat (nat i))"

text \<open>An optional integer in an f-string: \<open>None\<close> is rendered as the text \<open>None\<close>.\<close>

definition str_opt_int :: "int option \<Rightarrow> string" where
  "str_opt_int v = (case v of None \<Rightarrow> ''None'' | Some i \<Rightarrow> str_int i)"

text \<open>Sequencing of steps that may raise: the first exception ends the block.\<close>

definition bind_err :: "'e + 'a \<Rightarrow> ('a \<Rightarrow> 'e + 'b) \<Rightarrow> 'e + 'b" where
  "bind_err m f = (case m of Inl e \<Rightarrow> Inl e | Inr x \<Rightarrow> f x)"

definition getattr :: "string \<Rightarrow> 'a option \<Rightarrow> py_error + 'a" where
  "getattr name v = (case v of None \<Rightarrow> Inl (AttributeError name) | Some x \<Rightarrow> Inr x)"

definition int_of :: "string \<Rightarrow> py_error + int" where
  "int_of s = (case py_int s of None \<Rightarrow> Inl (ValueError s) | Some i \<Rightarrow> Inr i)"

definition getitem :: "packet \<Rightarrow> string \<Rightarrow> py_error + transport_fields" where
  "getitem pkt name = (case layers pkt name of None \<Rightarrow> Inl (KeyError name) | Some l \<Rightarrow> Inr l)"

section \<open>extract_packet_data\<close>

text \<open>
  The body of the \<open>try\<close> block, statement by statement; \<open>now\<close> is the value
  \<open>time.time()\<close> returns. When the label is Python's \<open>None\<close>, the test
  \<open>protocol != "Unknown"\<close> succeeds and \<open>packet[None]\<close> raises in the capture library
  (its lookup is by layer name), so the block ends there.
\<close>

definition extract_body :: "packet \<Rightarrow> real \<Rightarrow> py_error + PacketData" where
  "extract_body pkt now =
     bind_err (case ip pkt of Some l \<Rightarrow> getattr ''src'' (src l) | None \<Rightarrow> Inr ''Unknown'') (\<lambda>src_ip'.
     bind_err (case ip pkt of Some l \<Rightarrow> getattr ''dst'' (dst l) | None \<Rightarrow> Inr ''Unknown'') (\<lambda>dest_ip'.
     let label = (case transport_layer pkt of Some v \<Rightarrow> v | None \<Rightarrow> Some ''Unknown'') in
     bind_err (getattr ''length'' (length_attr pkt)) (\<lambda>len_text.
     bind_err (int_of len_text) (\<lambda>length'.
     case label of
       None \<Rightarrow> Inl (AttributeError ''lower'')
     | Some protocol' \<Rightarrow>
         if protocol' \<noteq> ''Unknown'' then
           bind_err (getitem pkt protocol') (\<lambda>l1.
           bind_err (getattr ''srcport'' (srcport l1)) (\<lambda>sp_text.
           bind_err (int_of sp_text) (\<lambda>port_src'.
           bind_err (getitem pkt protocol') (\<lambda>l2.
           bind_err (getattr ''dstport'' (dstport l2)) (\<lambda>dp_text.
           bind_err (int_of dp_text) (\<lambda>port_dst'.
           bind_err (getitem pkt protocol') (\<lambda>l3.
           Inr \<lparr>src_ip = src_ip', dest_ip = dest_ip', protocol = protocol',
                length_bytes = length', timestamp = now,
                port_src = Some port_src', port_dst = Some port_dst',
                flags = flags_attr l3\<rparr>)))))))
         else
           Inr \<lparr>src_ip = src_ip', dest_ip = dest_ip', protocol = protocol',
                length_bytes = length', timestamp = now,
                port_src = None, port_dst = None, flags = None\<rparr>))))"

text \<open>
  The whole function: the result and the log lines it emits. Every exception of the
  body is caught, logged and turned into \<open>None\<close>.
\<close>

definition extract_packet_data :: "packet \<Rightarrow> real \<Rightarrow> PacketData option \<times> log_entry list" where
  "extract_packet_data pkt now =
     (case extract_body pkt now of
        Inr d \<Rightarrow> (Some d, [])
      | Inl e \<Rightarrow> (None, [LogError ''Error extracting packet data: '' e]))"

section \<open>craft_prompt\<close>

definition base_context :: "PoetryStyle \<Rightarrow> string" where
  "base_context sty =
     (case sty of
        PESSOA \<Rightarrow>
          ''\<newline>                Channel the introspective, philosophical voice of Fernando Pessoa's heteronyms.''
          @ ''\<newline>                Contemplate each packet as a fleeting moment of consciousness traversing the ether.''
          @ ''\<newline>                Reflect on the metaphysical nature of data moving through intangible spaces.''
          @ ''\<newline>            ''
      | WHITMAN \<Rightarrow>
          ''\<newline>                Embrace Walt Whitman's grand, expansive style.''
          @ ''\<newline>                Treat each packet as part of a cosmic tapestry of modern life.''
          @ ''\<newline>                Weave the digital flow into humanity's universal song.''
          @ ''\<newline>            ''
      | DICKINSON \<Rightarrow>
          ''\<newline>                Employ Emily Dickinson's delicate yet potent verse.''
          @ ''\<newline>                Observe the micro-moments of transmission with a keen, almost reverent eye.''
          @ ''\<newline>                Harness unusual punctuation and subtle metaphor to illuminate digital rhythms.''
          @ ''\<newline>            '')"

text \<open>The f-string built for one packet in the loop.\<close>

definition description :: "PacketData \<Rightarrow> string" where
  "description p =
     ''Data from '' @ src_ip p @ '':'' @ str_opt_int (port_src p) @ '' ''
     @ ''to '' @ dest_ip p @ '':'' @ str_opt_int (port_dst p) @ '', ''
     @ str_int (length_bytes p) @ '' bytes via '' @ protocol p @ ''.''"

text \<open>The loop that appends one description per packet, in order.\<close>

fun packet_descriptions :: "PacketData list \<Rightarrow> string list" where
  "packet_descriptions [] = []"
| "packet_descriptions (p # ps) = description p # packet_descriptions ps"

text \<open>\<open>sep.join(xs)\<close>.\<close>

fun join :: "string \<Rightarrow> string list \<Rightarrow> string" where
  "join sep [] = []"
| "join sep [x] = x"
| "join sep (x # y # ys) = x @ sep @ join sep (y # ys)"

definition craft_prompt :: "PacketData list \<Rightarrow> PoetryStyle \<Rightarrow> string" where
  "craft_prompt pkts sty =
     ''\<newline>        '' @ base_context sty
     @ ''\<newline>\<newline>        Consider the following network movements:''
     @ ''\<newline>        '' @ join ''\<newline>'' (packet_descriptions pkts)
     @ ''\<newline>\<newline>        Transform these digital flows into a poem in the style of ''
     @ style_value sty @ ''.''
     @ ''\<newline>        Contemplate the symbolic meaning of packets dancing between nodes and''
     @ ''\<newline>        the resonance of ephemeral data in our digital consciousness.''
     @ ''\<newline>        ''"

section \<open>generate_poetry\<close>

text \<open>
  What the completion call does for a prompt: it raises, or it returns a response whose
  \<open>choices\<close> carry a text each. The service is a parameter of the model.
\<close>

datatype api_result = ApiRaises py_error | ApiResponse "string list"

definition first_choice :: "api_result \<Rightarrow> py_error + string" where
  "first_choice r =
     (case r of
        ApiRaises e \<Rightarrow> Inl e
      | ApiResponse choices \<Rightarrow> (case choices of [] \<Rightarrow> Inl IndexError | c # _ \<Rightarrow> Inr c))"

definition generate_poetry :: "(string \<Rightarrow> api_result) \<Rightarrow> string \<Rightarrow> string \<times> log_entry list" where
  "generate_poetry completions_create prompt =
     (case bind_err (first_choice (completions_create prompt)) (\<lambda>text. Inr (strip text)) of
        Inr text \<Rightarrow> (text, [])
      | Inl e \<Rightarrow>
          (''Error generating poetic response'', [LogError ''Error generating poetry: '' e]))"

section \<open>process_packets: the capture loop and buffer_processor\<close>

text \<open>
  The two coroutines run on one event loop, so the code between two \<open>await\<close>s runs
  undivided. \<open>buffer_processor\<close> is either between iterations (\<open>Polling\<close>) or suspended
  at \<open>await self.generate_poetry(prompt)\<close> (\<open>Awaiting prompt\<close>).
\<close>

datatype consumer_state = Polling | Awaiting string

record generator_state =
  packet_buffer :: "PacketData list"
  poetry_archive :: "(string \<times> PoetryArchiveEntry) list"
  consumer :: consumer_state
  log_lines :: "log_entry list"

text \<open>The state \<open>__init__\<close> builds, with \<open>buffer_processor\<close> not yet started.\<close>

definition initial_state :: generator_state where
  "initial_state =
     \<lparr>packet_buffer = [], poetry_archive = [], consumer = Polling, log_lines = []\<rparr>"

text \<open>\<open>vars(p)\<close>: the fields of the dataclass instance, in declaration order.\<close>

definition opt_val :: "('a \<Rightarrow> pyval) \<Rightarrow> 'a option \<Rightarrow> pyval" where
  "opt_val f v = (case v of None \<Rightarrow> PNone | Some x \<Rightarrow> f x)"

definition vars :: "PacketData \<Rightarrow> pyval" where
  "vars p =
     PDict
       [(''src_ip'', PStr (src_ip p)),
        (''dest_ip'', PStr (dest_ip p)),
        (''protocol'', PStr (protocol p)),
        (''length'', PInt (length_bytes p)),
        (''timestamp'', PFloat (timestamp p)),
        (''port_src'', opt_val PInt (port_src p)),
        (''port_dst'', opt_val PInt (port_dst p)),
        (''flags'', opt_val PStr (flags p))]"

text \<open>
  \<open>d[k] = v\<close> on a dictionary kept in insertion order: an existing key keeps its
  place and gets the new value, a new key goes to the end.
\<close>

definition setitem ::
  "(string \<times> 'v) list \<Rightarrow> string \<Rightarrow> 'v \<Rightarrow> (string \<times> 'v) list" where
  "setitem d k v = AList.update k v d"

text \<open>One iteration of the capture loop: extract, append when a record came back.\<close>

definition capture :: "generator_state \<Rightarrow> packet \<Rightarrow> real \<Rightarrow> generator_state" where
  "capture s pkt now =
     (case extract_packet_data pkt now of
        (Some packet_data, out) \<Rightarrow>
          s\<lparr>packet_buffer := packet_buffer s @ [packet_data], log_lines := log_lines s @ out\<rparr>
      | (None, out) \<Rightarrow> s\<lparr>log_lines := log_lines s @ out\<rparr>)"

text \<open>
  \<open>buffer_processor\<close> from the test of the buffer's length up to the \<open>await\<close>: the
  prompt is built from the buffer as it is now.
\<close>

definition begin_drain :: "PoetryStyle \<Rightarrow> generator_state \<Rightarrow> generator_state" where
  "begin_drain sty s =
     (if length (packet_buffer s) \<ge> 5
      then s\<lparr>consumer := Awaiting (craft_prompt (packet_buffer s) sty)\<rparr>
      else s)"

text \<open>
  \<open>buffer_processor\<close> from the return of \<open>generate_poetry\<close> to \<open>asyncio.sleep(1)\<close>: the
  entry is built from the buffer as it is now, stored under its \<open>generated_at\<close>
  (\<open>now_iso\<close> is \<open>datetime.now().isoformat()\<close>), and the buffer is cleared.
\<close>

definition finish_drain ::
  "PoetryStyle \<Rightarrow> generator_state \<Rightarrow> (string \<Rightarrow> api_result) \<Rightarrow> string \<Rightarrow> string \<Rightarrow> generator_state" where
  "finish_drain sty s completions_create prompt now_iso =
     (let (poetry', out) = generate_poetry completions_create prompt;
          archive_entry =
            \<lparr>poetry = poetry', packets = map vars (packet_buffer s),
             style = style_value sty, generated_at = now_iso\<rparr>
      in s\<lparr>poetry_archive :=
              setitem (poetry_archive s) (generated_at archive_entry) archive_entry,
            packet_buffer := [],
            consumer := Polling,
            log_lines := log_lines s @ out
              @ [LogInfo (''\<newline>--- New Poetry Generated at '' @ generated_at archive_entry
                   @ '' ---\<newline>'' @ poetry' @ ''\<newline>'')]\<rparr>)"

text \<open>
  What can happen next. \<open>Capture\<close>: the capture loop handles one sniffed packet.
  \<open>Poll\<close>: \<open>buffer_processor\<close> starts an iteration. \<open>Completed\<close>: the pending
  \<open>generate_poetry\<close> call returns. \<open>None\<close> means the event cannot happen in this state:
  a suspended \<open>buffer_processor\<close> does not start an iteration, and no call returns when
  none is pending.
\<close>

datatype event =
    Capture packet real
  | Poll
  | Completed "string \<Rightarrow> api_result" string

fun step :: "PoetryStyle \<Rightarrow> generator_state \<Rightarrow> event \<Rightarrow> generator_state option" where
  "step sty s (Capture pkt now) = Some (capture s pkt now)"
| "step sty s Poll =
     (case consumer s of
        Polling \<Rightarrow> Some (begin_drain sty s)
      | Awaiting prompt \<Rightarrow> None)"
| "step sty s (Completed completions_create now_iso) =
     (case consumer s of
        Polling \<Rightarrow> None
      | Awaiting prompt \<Rightarrow> Some (finish_drain sty s completions_create prompt now_iso))"

fun run :: "PoetryStyle \<Rightarrow> generator_state \<Rightarrow> event list \<Rightarrow> generator_state option" where
  "run sty s [] = Some s"
| "run sty s (ev # evs) = (case step sty s ev of None \<Rightarrow> None | Some s' \<Rightarrow> run sty s' evs)"

section \<open>save_archive\<close>

text \<open>
  The dictionary the comprehension builds and \<open>json.dump\<close> writes: one item is set
  per item of the archive, in order.
\<close>

definition entry_dict :: "PoetryArchiveEntry \<Rightarrow> pyval" where
  "entry_dict entry =
     PDict
       [(''poetry'', PStr (poetry entry)),
        (''packets'', PList (packets entry)),
        (''style'', PStr (style entry)),
        (''generated_at'', PStr (generated_at entry))]"

definition archive_dict :: "(string \<times> PoetryArchiveEntry) list \<Rightarrow> pyval" where
  "archive_dict archive =
     PDict (foldl (\<lambda>d (ts, entry). setitem d ts (entry_dict entry)) [] archive)"

text \<open>
  \<open>save_archive\<close>: \<open>file\<close> is the content of the archive file as a JSON value
  (\<open>None\<close>: no file), \<open>open_error\<close> the exception \<open>open\<close> raises, if any. The
  result is the new content of the file and the state with the log line added.
\<close>

definition save_archive ::
  "generator_state \<Rightarrow> py_error option \<Rightarrow> pyval option \<Rightarrow> pyval option \<times> generator_state" where
  "save_archive s open_error file =
     (case open_error of
        None \<Rightarrow>
          (Some (archive_dict (poetry_archive s)),
           s\<lparr>log_lines := log_lines s @ [LogInfo ''Poetry archive saved successfully.'']\<rparr>)
      | Some e \<Rightarrow>
          (file, s\<lparr>log_lines := log_lines s @ [LogError ''Error saving poetry archive: '' e]\<rparr>))"

section \<open>Failure conditions of the extractor\<close>

text \<open>
  The parse failures, written as a predicate on the packet: an address missing from a
  present network layer, a missing or non-integer length, and, when the transport label
  is a name other than \<open>Unknown\<close>, a missing layer or a missing or non-integer port.
  The flags are not among them.
\<close>

definition port_failure :: "string option \<Rightarrow> bool" where
  "port_failure v = (case v of None \<Rightarrow> True | Some s \<Rightarrow> py_int s = None)"

definition parse_failure :: "packet \<Rightarrow> bool" where
  "parse_failure pkt =
     ((case ip pkt of None \<Rightarrow> False | Some l \<Rightarrow> src l = None \<or> dst l = None)
      \<or> (case length_attr pkt of None \<Rightarrow> True | Some s \<Rightarrow> py_int s = None)
      \<or> (case transport_layer pkt of
            None \<Rightarrow> False
          | Some None \<Rightarrow> False
          | Some (Some t) \<Rightarrow>
              t \<noteq> ''Unknown'' \<and>
              (case layers pkt t of
                 None \<Rightarrow> True
               | Some l \<Rightarrow> port_failure (srcport l) \<or> port_failure (dstport l))))"

text \<open>The transport label, when the packet has one, is a string.\<close>

definition label_is_text :: "packet \<Rightarrow> bool" where
  "label_is_text pkt = (transport_layer pkt \<noteq> Some None)"

section \<open>Sample inputs\<close>

text \<open>A UDP datagram over IPv4; its transport layer carries no flags.\<close>

definition udp_packet :: packet where
  "udp_packet =
     \<lparr>ip = Some \<lparr>src = Some ''10.0.0.1'', dst = Some ''10.0.0.2''\<rparr>,
      transport_layer = Some (Some ''UDP''),
      length_attr = Some ''60'',
      layers =
        [''UDP'' \<mapsto> \<lparr>srcport = Some ''53'', dstport = Some ''5353'', flags_attr = None\<rparr>]\<rparr>"

text \<open>A TCP segment with no \<open>ip\<close> layer (as one carried over IPv6 has none).\<close>

definition tcp_packet :: packet where
  "tcp_packet =
     \<lparr>ip = None,
      transport_layer = Some (Some ''TCP''),
      length_attr = Some ''60'',
      layers =
        [''TCP'' \<mapsto>
           \<lparr>srcport = Some ''443'', dstport = Some ''51000'', flags_attr = Some ''0x0010''\<rparr>]\<rparr>"

text \<open>
  An object with neither an \<open>ip\<close> nor a \<open>transport_layer\<close> attribute, and the
  record it gives.
\<close>

definition bare_packet :: packet where
  "bare_packet =
     \<lparr>ip = None, transport_layer = None, length_attr = Some ''60'',
      layers = (\<lambda>name. None)\<rparr>"

text \<open>
  An ARP frame as the capture library delivers it: no \<open>ip\<close> layer, and the label
  \<open>transport_layer\<close> present with the value \<open>None\<close>.
\<close>

definition arp_packet :: packet where
  "arp_packet =
     \<lparr>ip = None, transport_layer = Some None, length_attr = Some ''42'',
      layers = (\<lambda>name. None)\<rparr>"

definition bare_record :: "real \<Rightarrow> PacketData" where
  "bare_record now =
     \<lparr>src_ip = ''Unknown'', dest_ip = ''Unknown'', protocol = ''Unknown'',
      length_bytes = 60, timestamp = now, port_src = None, port_dst = None, flags = None\<rparr>"

text \<open>The batch, the events and the states the examples below use.\<close>

definition bare_batch :: "PacketData list" where
  "bare_batch = [bare_record 1, bare_record 2, bare_record 3, bare_record 4, bare_record 5]"

definition five_captures :: "event list" where
  "five_captures =
     [Capture bare_packet 1, Capture bare_packet 2, Capture bare_packet 3,
      Capture bare_packet 4, Capture bare_packet 5]"

definition failing_service :: "string \<Rightarrow> api_result" where
  "failing_service prompt = ApiRaises (ServiceError ''connection refused'')"

definition poet_service :: "string \<Rightarrow> api_result" where
  "poet_service prompt = ApiResponse ['' a poem\<newline>'']"

definition pending_state :: generator_state where
  "pending_state =
     \<lparr>packet_buffer = bare_batch, poetry_archive = [],
      consumer = Awaiting (craft_prompt bare_batch PESSOA), log_lines = []\<rparr>"

definition sample_entry :: PoetryArchiveEntry where
  "sample_entry =
     \<lparr>poetry = ''a poem'', packets = map vars bare_batch, style = ''pessoa'',
      generated_at = ''t1''\<rparr>"

definition archived_state :: generator_state where
  "archived_state =
     \<lparr>packet_buffer = [bare_record 6], poetry_archive = [(''t1'', sample_entry)],
      consumer = Awaiting ''prompt'', log_lines = []\<rparr>"

section \<open>What a sequence of events appends\<close>

text \<open>
  The records the capture loop appends to the buffer over a sequence of events: one per
  captured packet for which \<open>extract_packet_data\<close> returns a record, in order.
\<close>

fun appended :: "event list \<Rightarrow> PacketData list" where
  "appended [] = []"
| "appended (Capture pkt now # evs) =
     (case fst (extract_packet_data pkt now) of
        Some packet_data \<Rightarrow> packet_data # appended evs
      | None \<Rightarrow> appended evs)"
| "appended (Poll # evs) = appended evs"
| "appended (Completed completions_create now_iso # evs) = appended evs"

text \<open>The events at which a pending generation call returns.\<close>

fun completes :: "event \<Rightarrow> bool" where
  "completes (Completed completions_create now_iso) = True"
| "completes (Capture pkt now) = False"
| "completes Poll = False"

section \<open>Invariants of the pipeline\<close>

text \<open>
  While \<open>buffer_processor\<close> is suspended in \<open>generate_poetry\<close>, the prompt it sent was
  built from the first \<open>n\<close> records of the buffer, for some \<open>n\<close> of at least 5.
\<close>

definition pending_ok :: "PoetryStyle \<Rightarrow> generator_state \<Rightarrow> bool" where
  "pending_ok sty s =
     (case consumer s of
        Polling \<Rightarrow> True
      | Awaiting prompt \<Rightarrow>
          (\<exists>n \<in> {5 .. length (packet_buffer s)}.
             prompt = craft_prompt (take n (packet_buffer s)) sty))"

text \<open>Every entry of the archive sits under its own \<open>generated_at\<close>.\<close>

definition key_consistent :: "(string \<times> PoetryArchiveEntry) list \<Rightarrow> bool" where
  "key_consistent archive = list_all (\<lambda>(k, entry). generated_at entry = k) archive"

text \<open>The same for the written dictionary: each object's \<open>generated_at\<close> is its key.\<close>

definition item_consistent :: "string \<times> pyval \<Rightarrow> bool" where
  "item_consistent kv =
     (case snd kv of
        PDict fs \<Rightarrow> map_of fs ''generated_at'' = Some (PStr (fst kv))
      | _ \<Rightarrow> False)"

definition artifact_consistent :: "pyval \<Rightarrow> bool" where
  "artifact_consistent v =
     (case v of PDict kvs \<Rightarrow> list_all item_consistent kvs | _ \<Rightarrow> False)"

section \<open>Reading the archive file back\<close>

text \<open>
  Modelled from the spec: the loader of the persisted artifact. The repository only
  writes the file; nothing in it reads the file back. The spec describes the artifact as
  a mapping from generation timestamp to an object with the fields \<open>poetry\<close> (text),
  \<open>packets\<close> (array of record field-maps), \<open>style\<close> and \<open>generated_at\<close>; the loader
  below reads exactly that shape into archive entries and fails on any other. The file
  is taken at the level of the JSON value: the text \<open>json.dump\<close> writes and a JSON
  parser reads is the library's and is not modelled.
\<close>

definition load_entry :: "pyval \<Rightarrow> PoetryArchiveEntry option" where
  "load_entry v =
     (case v of
        PDict fs \<Rightarrow>
          (case (map_of fs ''poetry'', map_of fs ''packets'',
                 map_of fs ''style'', map_of fs ''generated_at'') of
             (Some (PStr p), Some (PList ps), Some (PStr st), Some (PStr g)) \<Rightarrow>
               Some \<lparr>poetry = p, packets = ps, style = st, generated_at = g\<rparr>
           | _ \<Rightarrow> None)
      | _ \<Rightarrow> None)"

text \<open>Modelled from the spec: the loader applied to the items of the mapping, in order.\<close>

fun load_items :: "(string \<times> pyval) list \<Rightarrow> (string \<times> PoetryArchiveEntry) list option" where
  "load_items [] = Some []"
| "load_items ((k, v) # rest) =
     (case load_entry v of
        None \<Rightarrow> None
      | Some entry \<Rightarrow>
          (case load_items rest of
             None \<Rightarrow> None
           | Some entries \<Rightarrow> Some ((k, entry) # entries)))"

text \<open>Modelled from the spec: the loader of the whole artifact.\<close>

definition load_archive :: "pyval \<Rightarrow> (string \<times> PoetryArchiveEntry) list option" where
  "load_archive v = (case v of PDict kvs \<Rightarrow> load_items kvs | _ \<Rightarrow> None)"

section \<open>Properties of extract_packet_data\<close>

lemmas py_int_eval =
  py_int_def is_int_space_def int_max_str_digits_def parse_unsigned_def is_digit_def
  digit_value_def

lemmas extract_eval =
  extract_packet_data_def extract_body_def bind_err_def getattr_def getitem_def int_of_def

lemma extract_body_Inl_iff:
  "(\<exists>e. extract_body pkt now = Inl e) \<longleftrightarrow> parse_failure pkt \<or> \<not> label_is_text pkt"
  by (auto simp: extract_body_def parse_failure_def port_failure_def label_is_text_def
        bind_err_def getattr_def getitem_def int_of_def Let_def
      split: option.splits sum.splits if_splits)

lemma extract_bare_packet: "extract_packet_data bare_packet now = (Some (bare_record now), [])"
  by (simp add: bare_packet_def bare_record_def extract_eval py_int_eval)

text \<open>
  The separators that \<open>str.strip()\<close> removes are not whitespace for \<open>int\<close>, and a
  literal of 4301 digits is refused.
\<close>

lemma py_int_separator: "py_int (CHR 0x1C # ''60'') = None"
  by (simp add: py_int_eval)

lemma py_int_too_long: "py_int (replicate 4301 (CHR ''0'')) = None"
  by (simp add: py_int_def is_int_space_def int_max_str_digits_def is_digit_def
      dropWhile_replicate filter_replicate)

text \<open>A frame without transport layer, as the capture library delivers it, is dropped.\<close>

lemma extract_arp_packet:
  "extract_packet_data arp_packet now
     = (None, [LogError ''Error extracting packet data: '' (AttributeError ''lower'')])"
  by (simp add: arp_packet_def extract_eval py_int_eval)

lemma parse_failure_udp_packet: "\<not> parse_failure udp_packet"
  by (simp add: parse_failure_def port_failure_def udp_packet_def py_int_eval)

text \<open>
  C4, as the claim states it, fails: a packet whose resolved transport layer has no
  flags is not turned into \<open>None\<close>. The UDP sample has ports and no flags, and the
  extractor returns a record whose flags are absent.
\<close>

theorem extract_missing_flags_counterexample:
  "flags_attr (the (layers udp_packet ''UDP'')) = None \<and>
   fst (extract_packet_data udp_packet 0) =
     Some \<lparr>src_ip = ''10.0.0.1'', dest_ip = ''10.0.0.2'', protocol = ''UDP'',
           length_bytes = 60, timestamp = 0, port_src = Some 53, port_dst = Some 5353,
           flags = None\<rparr>"
  by (simp add: udp_packet_def extract_eval py_int_eval)

text \<open>
  C4, amended: the extractor is total. For every packet it returns either a record and
  no log line, or \<open>None\<close> and exactly one error log line; no exception escapes. Every
  parse failure yields \<open>None\<close>: an address missing from a present network layer, a
  missing or non-integer length, and, for a transport label resolved to a name other
  than \<open>Unknown\<close>, a missing layer or a missing or non-integer port. A missing flags
  field is not a failure: a packet with none of these failures, whose transport label
  (when it has one) is a string, gets a record, and the record has the flags the layer
  has, absent ones included.
\<close>

theorem extract_packet_data_total:
  "((\<exists>d. extract_packet_data pkt now = (Some d, []))
      \<or> (\<exists>e. extract_packet_data pkt now
             = (None, [LogError ''Error extracting packet data: '' e])))
   \<and> (parse_failure pkt \<longrightarrow>
        (\<exists>e. extract_packet_data pkt now
             = (None, [LogError ''Error extracting packet data: '' e])))
   \<and> (\<not> parse_failure pkt \<and> label_is_text pkt \<longrightarrow>
        (\<exists>d. extract_packet_data pkt now = (Some d, [])))
   \<and> (\<forall>t l. transport_layer pkt = Some (Some t) \<and> t \<noteq> ''Unknown''
          \<and> layers pkt t = Some l \<and> \<not> parse_failure pkt \<longrightarrow>
        (\<exists>d. extract_packet_data pkt now = (Some d, []) \<and> flags d = flags_attr l))"
proof -
  have body: "(\<exists>e. extract_body pkt now = Inl e) \<longleftrightarrow> parse_failure pkt \<or> \<not> label_is_text pkt"
    by (rule extract_body_Inl_iff)
  have total: "(\<exists>d. extract_packet_data pkt now = (Some d, []))
      \<or> (\<exists>e. extract_packet_data pkt now
             = (None, [LogError ''Error extracting packet data: '' e]))"
    by (cases "extract_body pkt now") (simp_all add: extract_packet_data_def)
  have fails: "\<exists>e. extract_packet_data pkt now
             = (None, [LogError ''Error extracting packet data: '' e])"
    if "parse_failure pkt"
    using body that by (cases "extract_body pkt now") (auto simp: extract_packet_data_def)
  have succeeds: "\<exists>d. extract_packet_data pkt now = (Some d, [])"
    if "\<not> parse_failure pkt" "label_is_text pkt"
    using body that by (cases "extract_body pkt now") (auto simp: extract_packet_data_def)
  have keeps_flags: "\<exists>d. extract_packet_data pkt now = (Some d, []) \<and> flags d = flags_attr l"
    if "transport_layer pkt = Some (Some t)" "t \<noteq> ''Unknown''" "layers pkt t = Some l"
      "\<not> parse_failure pkt" for t l
    using that
    by (auto simp: extract_eval parse_failure_def port_failure_def Let_def
        split: option.splits sum.splits if_splits)
  from total fails succeeds keeps_flags show ?thesis by blast
qed

theorem extract_packet_data_total_witness:
  "transport_layer udp_packet = Some (Some ''UDP'') \<and> ''UDP'' \<noteq> ''Unknown''
   \<and> layers udp_packet ''UDP''
       = Some \<lparr>srcport = Some ''53'', dstport = Some ''5353'', flags_attr = None\<rparr>
   \<and> \<not> parse_failure udp_packet
   \<and> (\<exists>d. extract_packet_data udp_packet 0 = (Some d, []) \<and> flags d = None)"
proof -
  have h: "transport_layer udp_packet = Some (Some ''UDP'') \<and> ''UDP'' \<noteq> ''Unknown''
    \<and> layers udp_packet ''UDP''
        = Some \<lparr>srcport = Some ''53'', dstport = Some ''5353'', flags_attr = None\<rparr>
    \<and> \<not> parse_failure udp_packet"
    using parse_failure_udp_packet by (simp add: udp_packet_def)
  from extract_packet_data_total [of udp_packet 0] h
  have "\<exists>d. extract_packet_data udp_packet 0 = (Some d, [])
      \<and> flags d = flags_attr \<lparr>srcport = Some ''53'', dstport = Some ''5353'', flags_attr = None\<rparr>"
    by blast
  with h show ?thesis by simp
qed

text \<open>
  C5, as the claim states it, fails: the TCP sample has no \<open>ip\<close> layer, so its
  addresses are the sentinel, yet the record carries both ports.
\<close>

theorem extract_no_ip_ports_counterexample:
  "ip tcp_packet = None \<and>
   map_option (\<lambda>d. (src_ip d, dest_ip d, port_src d, port_dst d))
     (fst (extract_packet_data tcp_packet 0))
     = Some (''Unknown'', ''Unknown'', Some 443, Some 51000)"
  by (simp add: tcp_packet_def extract_eval py_int_eval)

text \<open>
  C5, amended: for every packet without an \<open>ip\<close> layer that the extractor turns into
  a record, both addresses are the sentinel \<open>Unknown\<close>; each port is absent exactly
  when the record's protocol is \<open>Unknown\<close>, which is the case exactly when the packet
  has no transport label (or the label is the sentinel itself).
\<close>

theorem extract_no_ip_layer:
  assumes "ip pkt = None" and "fst (extract_packet_data pkt now) = Some d"
  shows "src_ip d = ''Unknown'' \<and> dest_ip d = ''Unknown''
    \<and> (port_src d = None \<longleftrightarrow> protocol d = ''Unknown'')
    \<and> (port_dst d = None \<longleftrightarrow> protocol d = ''Unknown'')
    \<and> (protocol d = ''Unknown'' \<longleftrightarrow>
         transport_layer pkt = None \<or> transport_layer pkt = Some (Some ''Unknown''))"
  using assms
  by (auto simp: extract_eval Let_def split: option.splits sum.splits if_splits)

theorem extract_no_ip_layer_witness:
  "ip bare_packet = None
   \<and> fst (extract_packet_data bare_packet 0) = Some (bare_record 0)
   \<and> src_ip (bare_record 0) = ''Unknown'' \<and> dest_ip (bare_record 0) = ''Unknown''
   \<and> port_src (bare_record 0) = None \<and> port_dst (bare_record 0) = None
   \<and> protocol (bare_record 0) = ''Unknown''"
proof -
  have h1: "ip bare_packet = None"
    by (simp add: bare_packet_def)
  have h2: "fst (extract_packet_data bare_packet 0) = Some (bare_record 0)"
    by (simp add: extract_bare_packet)
  have "transport_layer bare_packet = None"
    by (simp add: bare_packet_def)
  with extract_no_ip_layer [OF h1 h2] h1 h2 show ?thesis by simp
qed

section \<open>Properties of craft_prompt\<close>

lemma packet_descriptions_map: "packet_descriptions pkts = map description pkts"
  by (induction pkts) simp_all

lemmas description_eval =
  description_def str_opt_int_def str_int_def str_nat.simps digit_char_def

text \<open>
  C6, as the claim states it, fails: the ports of a record without ports are not
  omitted from its line, each is rendered as the text \<open>None\<close>.
\<close>

theorem description_absent_ports_counterexample:
  "port_src (bare_record 0) = None \<and> port_dst (bare_record 0) = None
   \<and> description (bare_record 0)
       = ''Data from Unknown:None to Unknown:None, 60 bytes via Unknown.''
   \<and> description (bare_record 0) \<noteq> ''Data from Unknown to Unknown, 60 bytes via Unknown.''
   \<and> description (bare_record 0) \<noteq> ''Data from Unknown: to Unknown:, 60 bytes via Unknown.''"
  by (simp add: bare_record_def description_eval)

text \<open>
  C6, amended: for every batch and style the prompt builder produces one line per
  record, in batch order, of the form
  \<open>Data from <src>:<src_port> to <dst>:<dst_port>, <length> bytes via <protocol>.\<close>,
  where an absent port is rendered as the text \<open>None\<close> (nothing crashes and the line
  still ends in \<open>via <protocol>.\<close>); the prompt is a text fixed by the style, the lines
  joined by newlines, and a closing text fixed by the style. The builder is a function
  of the batch and the style alone, so identical inputs give identical output.
\<close>

theorem craft_prompt_lines:
  "length (packet_descriptions pkts) = length pkts
   \<and> (\<forall>i < length pkts. packet_descriptions pkts ! i = description (pkts ! i))
   \<and> (\<forall>p. description p =
        ''Data from '' @ src_ip p @ '':''
        @ (case port_src p of None \<Rightarrow> ''None'' | Some n \<Rightarrow> str_int n)
        @ '' to '' @ dest_ip p @ '':''
        @ (case port_dst p of None \<Rightarrow> ''None'' | Some n \<Rightarrow> str_int n)
        @ '', '' @ str_int (length_bytes p) @ '' bytes via '' @ protocol p @ ''.'')
   \<and> (\<exists>head tail. \<forall>batch.
        craft_prompt batch sty = head @ join ''\<newline>'' (packet_descriptions batch) @ tail)
   \<and> (\<forall>batch' sty'. batch' = pkts \<and> sty' = sty \<longrightarrow>
        craft_prompt batch' sty' = craft_prompt pkts sty)"
proof -
  have "\<exists>head tail. \<forall>batch.
      craft_prompt batch sty = head @ join ''\<newline>'' (packet_descriptions batch) @ tail"
    unfolding craft_prompt_def by (metis append.assoc)
  then show ?thesis
    by (simp add: packet_descriptions_map description_def str_opt_int_def)
qed

theorem craft_prompt_lines_witness:
  "(1::nat) < length [bare_record 0, bare_record 1]
   \<and> packet_descriptions [bare_record 0, bare_record 1] ! 1
       = ''Data from Unknown:None to Unknown:None, 60 bytes via Unknown.''"
proof -
  have h: "(1::nat) < length [bare_record 0, bare_record 1]"
    by simp
  from craft_prompt_lines [of "[bare_record 0, bare_record 1]" PESSOA] h
  have "packet_descriptions [bare_record 0, bare_record 1] ! 1
      = description ([bare_record 0, bare_record 1] ! 1)"
    by blast
  then show ?thesis
    by (simp add: bare_record_def description_eval)
qed

section \<open>Properties of generate_poetry and buffer_processor\<close>

subsection \<open>Evaluation on the sample inputs\<close>

lemma capture_bare_packet:
  "capture s bare_packet now = s\<lparr>packet_buffer := packet_buffer s @ [bare_record now]\<rparr>"
  by (simp add: capture_def extract_bare_packet)

lemma run_append:
  "run sty s (evs @ evs') = (case run sty s evs of None \<Rightarrow> None | Some s' \<Rightarrow> run sty s' evs')"
  by (induction evs arbitrary: s) (auto split: option.splits)

lemma run_five_captures:
  "run sty s five_captures = Some (s\<lparr>packet_buffer := packet_buffer s @ bare_batch\<rparr>)"
  by (simp add: five_captures_def bare_batch_def capture_bare_packet)

lemma run_pending_state: "run PESSOA initial_state (five_captures @ [Poll]) = Some pending_state"
  by (simp add: run_append run_five_captures initial_state_def begin_drain_def bare_batch_def
      pending_state_def)

lemma generate_poetry_poet: "generate_poetry poet_service prompt = (''a poem'', [])"
  by (simp add: generate_poetry_def poet_service_def first_choice_def bind_err_def strip_def
      is_space_def)

lemma generate_poetry_failure:
  "first_choice (create prompt) = Inl e \<Longrightarrow>
   generate_poetry create prompt
     = (''Error generating poetic response'', [LogError ''Error generating poetry: '' e])"
  by (simp add: generate_poetry_def bind_err_def)

lemma first_choice_failing:
  "first_choice (failing_service prompt) = Inl (ServiceError ''connection refused'')"
  by (simp add: first_choice_def failing_service_def)

lemma generate_poetry_failing:
  "generate_poetry failing_service prompt
     = (''Error generating poetic response'',
        [LogError ''Error generating poetry: '' (ServiceError ''connection refused'')])"
  by (rule generate_poetry_failure) (rule first_choice_failing)

subsection \<open>What each step does to the state\<close>

lemma capture_buffer: "\<exists>extra. packet_buffer (capture s pkt now) = packet_buffer s @ extra"
  by (auto simp: capture_def split: prod.splits option.splits)

lemma capture_consumer: "consumer (capture s pkt now) = consumer s"
  by (auto simp: capture_def split: prod.splits option.splits)

lemma capture_archive: "poetry_archive (capture s pkt now) = poetry_archive s"
  by (auto simp: capture_def split: prod.splits option.splits)

lemma finish_drain_buffer: "packet_buffer (finish_drain sty s create prompt ts) = []"
  by (simp add: finish_drain_def split: prod.splits)

lemma finish_drain_consumer: "consumer (finish_drain sty s create prompt ts) = Polling"
  by (simp add: finish_drain_def split: prod.splits)

lemma finish_drain_archive:
  "poetry_archive (finish_drain sty s create prompt ts) =
     setitem (poetry_archive s) ts
       \<lparr>poetry = fst (generate_poetry create prompt), packets = map vars (packet_buffer s),
        style = style_value sty, generated_at = ts\<rparr>"
  by (simp add: finish_drain_def split: prod.splits)

subsection \<open>Dictionary assignment\<close>

lemma map_of_setitem: "map_of (setitem d k v) k = Some v"
  by (simp add: setitem_def update_conv')

lemma map_of_setitem_other: "k' \<noteq> k \<Longrightarrow> map_of (setitem d k v) k' = map_of d k'"
  by (simp add: setitem_def update_conv')

lemma setitem_fresh: "k \<notin> fst ` set d \<Longrightarrow> setitem d k v = d @ [(k, v)]"
  unfolding setitem_def by (induction d) auto

lemma distinct_setitem: "distinct (map fst d) \<Longrightarrow> distinct (map fst (setitem d k v))"
  by (simp add: setitem_def distinct_update)

lemma distinct_step:
  "distinct (map fst (poetry_archive s)) \<Longrightarrow> step sty s ev = Some s' \<Longrightarrow>
   distinct (map fst (poetry_archive s'))"
  by (cases ev; cases "consumer s")
     (auto simp: capture_archive begin_drain_def finish_drain_archive distinct_setitem)

text \<open>The keys of the archive are distinct in every state the pipeline reaches.\<close>

lemma archive_keys_distinct:
  "distinct (map fst (poetry_archive s)) \<Longrightarrow> run sty s evs = Some s' \<Longrightarrow>
   distinct (map fst (poetry_archive s'))"
  by (induction evs arbitrary: s) (auto split: option.splits dest: distinct_step)

lemma length_setitem_present: "k \<in> fst ` set d \<Longrightarrow> length (setitem d k v) = length d"
  unfolding setitem_def by (induction d) auto

lemma filter_setitem:
  "distinct (map fst d) \<Longrightarrow> filter (\<lambda>kv. fst kv = k) (setitem d k v) = [(k, v)]"
proof (induction d)
  case Nil
  then show ?case by (simp add: setitem_def)
next
  case (Cons a d)
  show ?case
  proof (cases "fst a = k")
    case True
    from Cons.prems have "fst a \<notin> fst ` set d" by simp
    with True have "\<forall>kv \<in> set d. fst kv \<noteq> k" by blast
    then have "filter (\<lambda>kv. fst kv = k) d = []"
      by (simp add: filter_empty_conv)
    with True show ?thesis by (simp add: setitem_def)
  next
    case False
    with Cons show ?thesis by (simp add: setitem_def)
  qed
qed

lemma list_all_update:
  "list_all P d \<Longrightarrow> P (k, v) \<Longrightarrow> list_all P (AList.update k v d)"
  by (induction d) auto

subsection \<open>The pending prompt comes from a prefix of the buffer\<close>

lemma pending_ok_initial: "pending_ok sty initial_state"
  by (simp add: pending_ok_def initial_state_def)

lemma pending_ok_step:
  assumes "pending_ok sty s" and "step sty s ev = Some s'"
  shows "pending_ok sty s'"
proof (cases ev)
  case (Capture pkt now)
  obtain extra where buf: "packet_buffer (capture s pkt now) = packet_buffer s @ extra"
    using capture_buffer by blast
  from assms Capture have s': "s' = capture s pkt now" by simp
  show ?thesis
  proof (cases "consumer s")
    case Polling
    then show ?thesis by (simp add: pending_ok_def s' capture_consumer)
  next
    case (Awaiting prompt)
    with assms(1) obtain n where n: "5 \<le> n" "n \<le> length (packet_buffer s)"
      "prompt = craft_prompt (take n (packet_buffer s)) sty"
      by (auto simp: pending_ok_def)
    then have "n \<in> {5 .. length (packet_buffer s')}
        \<and> prompt = craft_prompt (take n (packet_buffer s')) sty"
      by (simp add: s' buf)
    then show ?thesis
      using Awaiting by (auto simp: pending_ok_def s' capture_consumer)
  qed
next
  case Poll
  show ?thesis
  proof (cases "consumer s")
    case Polling
    with assms Poll have s': "s' = begin_drain sty s" by simp
    show ?thesis
    proof (cases "5 \<le> length (packet_buffer s)")
      case True
      then have "length (packet_buffer s) \<in> {5 .. length (packet_buffer s)}"
        by simp
      moreover have "craft_prompt (packet_buffer s) sty
          = craft_prompt (take (length (packet_buffer s)) (packet_buffer s)) sty"
        by simp
      ultimately have "\<exists>n \<in> {5 .. length (packet_buffer s)}.
          craft_prompt (packet_buffer s) sty = craft_prompt (take n (packet_buffer s)) sty"
        by (rule rev_bexI)
      with True show ?thesis
        by (simp add: pending_ok_def s' begin_drain_def)
    next
      case False
      with assms(1) show ?thesis by (simp add: s' begin_drain_def)
    qed
  next
    case (Awaiting prompt)
    with assms Poll show ?thesis by simp
  qed
next
  case (Completed create ts)
  with assms show ?thesis
    by (cases "consumer s") (auto simp: pending_ok_def finish_drain_def split: prod.splits)
qed

lemma pending_ok_run:
  "pending_ok sty s \<Longrightarrow> run sty s evs = Some s' \<Longrightarrow> pending_ok sty s'"
  by (induction evs arbitrary: s) (auto split: option.splits dest: pending_ok_step)

subsection \<open>C1: the archived batch is read after the generation call\<close>

text \<open>
  C1 does not hold of the code. Five packets are captured and \<open>buffer_processor\<close>
  builds its prompt from them; a sixth packet is captured while \<open>generate_poetry\<close> is
  pending; when the call returns, the entry is built from the buffer as it is then. The
  archived batch has six records, the sixth of which the prompt never saw, and all six
  are cleared from the buffer.
\<close>

theorem late_record_archived:
  "map_option consumer
     (run PESSOA initial_state (five_captures @ [Poll, Capture bare_packet 6]))
     = Some (Awaiting (craft_prompt bare_batch PESSOA))
   \<and> map_option poetry_archive
       (run PESSOA initial_state
          (five_captures @ [Poll, Capture bare_packet 6, Completed poet_service ''t1'']))
     = Some [(''t1'', \<lparr>poetry = ''a poem'', packets = map vars (bare_batch @ [bare_record 6]),
                      style = ''pessoa'', generated_at = ''t1''\<rparr>)]
   \<and> map_option packet_buffer
       (run PESSOA initial_state
          (five_captures @ [Poll, Capture bare_packet 6, Completed poet_service ''t1'']))
     = Some []"
  by (simp add: run_append run_five_captures initial_state_def begin_drain_def bare_batch_def
      capture_bare_packet finish_drain_def generate_poetry_poet setitem_def)

subsection \<open>C2: when a drain happens and what it takes\<close>

text \<open>
  C2, as the claim states it, fails: six packets are captured before
  \<open>buffer_processor\<close> polls, and the one batch it archives has six records.
\<close>

theorem drain_batch_length_counterexample:
  "map_option (\<lambda>s. map (\<lambda>kv. length (packets (snd kv))) (poetry_archive s))
     (run PESSOA initial_state
        (five_captures @ [Capture bare_packet 6, Poll, Completed poet_service ''t1'']))
   = Some [6]"
  by (simp add: run_append run_five_captures initial_state_def begin_drain_def bare_batch_def
      capture_bare_packet finish_drain_def generate_poetry_poet setitem_def)

text \<open>
  C2, amended: in every state the pipeline can reach, a poll starts a drain exactly
  when the buffer holds at least 5 records (and changes nothing otherwise); immediately
  after the drain the buffer is empty, and the batch it produced has length at least 5.
\<close>

theorem drain_threshold:
  assumes "run sty initial_state evs = Some s"
  shows "(\<forall>s'. step sty s Poll = Some s' \<longrightarrow>
           ((\<exists>prompt. consumer s' = Awaiting prompt) \<longleftrightarrow> 5 \<le> length (packet_buffer s))
           \<and> (length (packet_buffer s) < 5 \<longrightarrow> s' = s))
       \<and> (\<forall>create ts s'. step sty s (Completed create ts) = Some s' \<longrightarrow>
           packet_buffer s' = []
           \<and> (\<exists>entry. map_of (poetry_archive s') ts = Some entry
                 \<and> 5 \<le> length (packets entry)))"
proof -
  have inv: "pending_ok sty s"
    using pending_ok_initial assms by (rule pending_ok_run)
  have poll: "((\<exists>prompt. consumer s' = Awaiting prompt) \<longleftrightarrow> 5 \<le> length (packet_buffer s))
      \<and> (length (packet_buffer s) < 5 \<longrightarrow> s' = s)"
    if "step sty s Poll = Some s'" for s'
    using that by (cases "consumer s") (auto simp: begin_drain_def split: if_splits)
  have fin: "packet_buffer s' = []
      \<and> (\<exists>entry. map_of (poetry_archive s') ts = Some entry
            \<and> 5 \<le> length (packets entry))"
    if "step sty s (Completed create ts) = Some s'" for create ts s'
  proof (cases "consumer s")
    case Polling
    with that show ?thesis by simp
  next
    case (Awaiting prompt)
    with that have s': "s' = finish_drain sty s create prompt ts" by simp
    from inv Awaiting have "5 \<le> length (packet_buffer s)"
      by (auto simp: pending_ok_def)
    then show ?thesis
      by (simp add: s' finish_drain_buffer finish_drain_archive map_of_setitem)
  qed
  from poll fin show ?thesis by blast
qed

theorem drain_threshold_witness:
  "run PESSOA initial_state (five_captures @ [Poll]) = Some pending_state
   \<and> step PESSOA pending_state (Completed poet_service ''t1'')
       = Some (finish_drain PESSOA pending_state poet_service
                 (craft_prompt bare_batch PESSOA) ''t1'')
   \<and> packet_buffer
       (finish_drain PESSOA pending_state poet_service (craft_prompt bare_batch PESSOA) ''t1'')
       = []"
proof -
  let ?s' = "finish_drain PESSOA pending_state poet_service (craft_prompt bare_batch PESSOA) ''t1''"
  have h1: "run PESSOA initial_state (five_captures @ [Poll]) = Some pending_state"
    by (rule run_pending_state)
  have h2: "step PESSOA pending_state (Completed poet_service ''t1'') = Some ?s'"
    by (simp add: pending_state_def)
  from drain_threshold [OF h1] h2 have "packet_buffer ?s' = []"
    by blast
  with h1 h2 show ?thesis by blast
qed

subsection \<open>C3: the consumer waits for the generation call\<close>

text \<open>
  C3, as the claim states it, fails: once a batch has been dispatched,
  \<open>buffer_processor\<close> is suspended at the \<open>await\<close> and cannot start another iteration
  before the call returns, whether or not packets arrive in between.
\<close>

theorem poll_while_generating_counterexample:
  "run PESSOA initial_state (five_captures @ [Poll]) = Some pending_state
   \<and> run PESSOA initial_state (five_captures @ [Poll, Poll]) = None
   \<and> run PESSOA initial_state (five_captures @ [Poll, Capture bare_packet 6, Poll]) = None"
  by (simp add: run_append run_five_captures initial_state_def begin_drain_def bare_batch_def
      capture_bare_packet pending_state_def)

lemma capture_appended:
  "packet_buffer (capture s pkt now) = packet_buffer s @ appended [Capture pkt now]"
  by (auto simp: capture_def split: prod.splits option.splits)

lemma run_pending_captures:
  "consumer s = Awaiting prompt \<Longrightarrow> \<not> list_ex completes evs \<Longrightarrow> Poll \<notin> set evs \<Longrightarrow>
   \<exists>s'. run sty s evs = Some s' \<and> consumer s' = Awaiting prompt
      \<and> packet_buffer s' = packet_buffer s @ appended evs
      \<and> poetry_archive s' = poetry_archive s"
proof (induction evs arbitrary: s)
  case Nil
  then show ?case by simp
next
  case (Cons ev evs)
  show ?case
  proof (cases ev)
    case (Capture pkt now)
    have c: "consumer (capture s pkt now) = Awaiting prompt"
      using Cons.prems(1) by (simp add: capture_consumer)
    from Cons.prems have "\<not> list_ex completes evs" "Poll \<notin> set evs" by simp_all
    from Cons.IH [OF c this] obtain s' where
      "run sty (capture s pkt now) evs = Some s'" "consumer s' = Awaiting prompt"
      "packet_buffer s' = packet_buffer (capture s pkt now) @ appended evs"
      "poetry_archive s' = poetry_archive (capture s pkt now)"
      by blast
    then show ?thesis
      using Capture capture_appended [of s pkt now]
      by (auto simp: capture_archive split: option.splits)
  next
    case Poll
    with Cons.prems show ?thesis by simp
  next
    case (Completed create ts)
    with Cons.prems show ?thesis by simp
  qed
qed

lemma run_pending_poll:
  "consumer s = Awaiting prompt \<Longrightarrow> \<not> list_ex completes evs \<Longrightarrow> Poll \<in> set evs \<Longrightarrow>
   run sty s evs = None"
proof (induction evs arbitrary: s)
  case Nil
  then show ?case by simp
next
  case (Cons ev evs)
  show ?case
  proof (cases ev)
    case (Capture pkt now)
    have c: "consumer (capture s pkt now) = Awaiting prompt"
      using Cons.prems(1) by (simp add: capture_consumer)
    from Cons.prems Capture have "\<not> list_ex completes evs" "Poll \<in> set evs" by simp_all
    from Cons.IH [OF c this] show ?thesis
      using Capture by simp
  next
    case Poll
    with Cons.prems show ?thesis by simp
  next
    case (Completed create ts)
    with Cons.prems show ?thesis by simp
  qed
qed

text \<open>
  C3, amended: for every dispatched batch the consumer waits for the generation call.
  From a state with a call pending, over any sequence of events before the call
  returns: the sequence can happen exactly when it contains no poll, so the consumer does
  not resume polling before the call returns and at most one call is in flight; the
  producer is not held up, every captured packet is handled and the buffer grows by
  exactly the records extracted from the captured packets, in order, while the consumer
  stays suspended on the same prompt and the archive is untouched; and the return of the
  call is then possible, after which the consumer polls again. In every state, pending or
  not, a captured packet is handled, its record (if any) is appended, and the consumer
  is left where it is.
\<close>

theorem consumer_awaits_generation:
  assumes "consumer s = Awaiting prompt" and "\<not> list_ex completes evs"
  shows "(run sty s evs = None \<longleftrightarrow> Poll \<in> set evs)
    \<and> (\<forall>s'. run sty s evs = Some s' \<longrightarrow>
          consumer s' = Awaiting prompt
          \<and> packet_buffer s' = packet_buffer s @ appended evs
          \<and> poetry_archive s' = poetry_archive s
          \<and> (\<forall>create ts. \<exists>s''. step sty s' (Completed create ts) = Some s''
                \<and> consumer s'' = Polling
                \<and> step sty s'' Poll = Some (begin_drain sty s'')))
    \<and> (\<forall>t pkt now. \<exists>t'. step sty t (Capture pkt now) = Some t'
          \<and> packet_buffer t' = packet_buffer t @ appended [Capture pkt now]
          \<and> consumer t' = consumer t)"
proof -
  have blocked: "run sty s evs = None \<longleftrightarrow> Poll \<in> set evs"
  proof
    assume "run sty s evs = None"
    then show "Poll \<in> set evs"
      using run_pending_captures [OF assms, of sty] by auto
  next
    assume "Poll \<in> set evs"
    with assms show "run sty s evs = None" by (rule run_pending_poll)
  qed
  have grows: "consumer s' = Awaiting prompt
      \<and> packet_buffer s' = packet_buffer s @ appended evs
      \<and> poetry_archive s' = poetry_archive s
      \<and> (\<forall>create ts. \<exists>s''. step sty s' (Completed create ts) = Some s''
            \<and> consumer s'' = Polling
            \<and> step sty s'' Poll = Some (begin_drain sty s''))"
    if r: "run sty s evs = Some s'" for s'
  proof -
    from r blocked have "Poll \<notin> set evs" by auto
    from run_pending_captures [OF assms this, of sty] r
    have st: "consumer s' = Awaiting prompt"
      "packet_buffer s' = packet_buffer s @ appended evs"
      "poetry_archive s' = poetry_archive s"
      by auto
    then show ?thesis
      by (simp add: finish_drain_consumer)
  qed
  have producer: "\<exists>t'. step sty t (Capture pkt now) = Some t'
      \<and> packet_buffer t' = packet_buffer t @ appended [Capture pkt now]
      \<and> consumer t' = consumer t" for t pkt now
    using capture_appended [of t pkt now] by (simp add: capture_consumer)
  from blocked grows producer show ?thesis by blast
qed

theorem consumer_awaits_generation_witness:
  "consumer pending_state = Awaiting (craft_prompt bare_batch PESSOA)
   \<and> \<not> list_ex completes [Capture bare_packet 6]
   \<and> run PESSOA pending_state [Capture bare_packet 6, Poll] = None
   \<and> map_option packet_buffer (run PESSOA pending_state [Capture bare_packet 6])
       = Some (bare_batch @ [bare_record 6])"
proof -
  have h1: "consumer pending_state = Awaiting (craft_prompt bare_batch PESSOA)"
    by (simp add: pending_state_def)
  have h2: "\<not> list_ex completes [Capture bare_packet 6]"
    by simp
  have h3: "\<not> list_ex completes [Capture bare_packet 6, Poll]"
    by simp
  have r: "run PESSOA pending_state [Capture bare_packet 6]
      = Some (capture pending_state bare_packet 6)"
    by simp
  have mem: "Poll \<in> set [Capture bare_packet 6, Poll]"
    by simp
  from consumer_awaits_generation [OF h1 h3, of PESSOA] mem
  have blocked: "run PESSOA pending_state [Capture bare_packet 6, Poll] = None"
    by blast
  from consumer_awaits_generation [OF h1 h2, of PESSOA] r
  have "packet_buffer (capture pending_state bare_packet 6)
      = packet_buffer pending_state @ appended [Capture bare_packet 6]"
    by blast
  then have "map_option packet_buffer (run PESSOA pending_state [Capture bare_packet 6])
       = Some (bare_batch @ [bare_record 6])"
    by (simp add: pending_state_def extract_bare_packet)
  with h1 h2 blocked show ?thesis by blast
qed

subsection \<open>C7: a failed generation still archives the batch\<close>

text \<open>
  C7: whenever the completion call raises or returns no choice, \<open>generate_poetry\<close>
  returns the fixed fallback text (and logs the error) instead of raising. In every
  reachable state with a call pending, the call's return, failed or not, stores an entry
  under the new timestamp; its poetry is what \<open>generate_poetry\<close> returned, and its
  packets contain the batch the prompt was built from.
\<close>

theorem generation_failure_archived:
  assumes "run sty initial_state evs = Some s" and "consumer s = Awaiting prompt"
  shows "(\<forall>e. first_choice (create prompt) = Inl e \<longrightarrow>
            generate_poetry create prompt
              = (''Error generating poetic response'',
                 [LogError ''Error generating poetry: '' e]))
     \<and> (\<exists>s' entry batch later.
            step sty s (Completed create ts) = Some s'
          \<and> map_of (poetry_archive s') ts = Some entry
          \<and> poetry entry = fst (generate_poetry create prompt)
          \<and> prompt = craft_prompt batch sty
          \<and> packet_buffer s = batch @ later
          \<and> packets entry = map vars batch @ map vars later)"
proof -
  have "pending_ok sty s"
    using pending_ok_initial assms(1) by (rule pending_ok_run)
  with assms(2) obtain n where n: "prompt = craft_prompt (take n (packet_buffer s)) sty"
    by (auto simp: pending_ok_def)
  define batch where "batch = take n (packet_buffer s)"
  define later where "later = drop n (packet_buffer s)"
  define entry where "entry =
    \<lparr>poetry = fst (generate_poetry create prompt), packets = map vars (packet_buffer s),
     style = style_value sty, generated_at = ts\<rparr>"
  have buf: "packet_buffer s = batch @ later"
    by (simp add: batch_def later_def)
  have p: "prompt = craft_prompt batch sty"
    using n by (simp add: batch_def)
  have e: "packets entry = map vars batch @ map vars later"
    by (simp add: entry_def buf)
  have m: "map_of (poetry_archive (finish_drain sty s create prompt ts)) ts = Some entry"
    by (simp add: finish_drain_archive map_of_setitem entry_def)
  have st: "step sty s (Completed create ts) = Some (finish_drain sty s create prompt ts)"
    using assms(2) by simp
  have "poetry entry = fst (generate_poetry create prompt)"
    by (simp add: entry_def)
  with p e m st buf have "\<exists>s' entry batch later.
            step sty s (Completed create ts) = Some s'
          \<and> map_of (poetry_archive s') ts = Some entry
          \<and> poetry entry = fst (generate_poetry create prompt)
          \<and> prompt = craft_prompt batch sty
          \<and> packet_buffer s = batch @ later
          \<and> packets entry = map vars batch @ map vars later"
    by blast
  then show ?thesis
    by (simp add: generate_poetry_failure)
qed

theorem generation_failure_archived_witness:
  "run PESSOA initial_state (five_captures @ [Poll]) = Some pending_state
   \<and> consumer pending_state = Awaiting (craft_prompt bare_batch PESSOA)
   \<and> first_choice (failing_service (craft_prompt bare_batch PESSOA))
       = Inl (ServiceError ''connection refused'')
   \<and> generate_poetry failing_service (craft_prompt bare_batch PESSOA)
       = (''Error generating poetic response'',
          [LogError ''Error generating poetry: '' (ServiceError ''connection refused'')])"
proof -
  have h1: "run PESSOA initial_state (five_captures @ [Poll]) = Some pending_state"
    by (rule run_pending_state)
  have h2: "consumer pending_state = Awaiting (craft_prompt bare_batch PESSOA)"
    by (simp add: pending_state_def)
  have h3: "first_choice (failing_service (craft_prompt bare_batch PESSOA))
       = Inl (ServiceError ''connection refused'')"
    by (rule first_choice_failing)
  from generation_failure_archived [OF h1 h2, of failing_service "''t1''"] h3
  have "generate_poetry failing_service (craft_prompt bare_batch PESSOA)
       = (''Error generating poetic response'',
          [LogError ''Error generating poetry: '' (ServiceError ''connection refused'')])"
    by blast
  with h1 h2 h3 show ?thesis by blast
qed

section \<open>Properties of the archive\<close>

subsection \<open>C8: an entry under an existing key replaces the old one\<close>

text \<open>
  C8: the keys of the archive being distinct (as the keys of a dictionary are), a drain
  that completes under a key already in the archive leaves exactly one entry for that
  key, the new one, with nothing of the old entry kept; the number of entries and every
  other key's entry are unchanged. In particular, after two drains that complete under
  the same key the archive has exactly one entry for it, holding the second batch.
\<close>

theorem same_key_overwrites:
  assumes "distinct (map fst (poetry_archive s))"
  shows "(ts \<in> fst ` set (poetry_archive s) \<longrightarrow>
           filter (\<lambda>kv. fst kv = ts) (poetry_archive (finish_drain sty s create prompt ts))
             = [(ts, \<lparr>poetry = fst (generate_poetry create prompt),
                      packets = map vars (packet_buffer s),
                      style = style_value sty, generated_at = ts\<rparr>)]
           \<and> length (poetry_archive (finish_drain sty s create prompt ts))
               = length (poetry_archive s)
           \<and> (\<forall>k. k \<noteq> ts \<longrightarrow>
                 map_of (poetry_archive (finish_drain sty s create prompt ts)) k
                   = map_of (poetry_archive s) k))
       \<and> (\<forall>s2. poetry_archive s2 = poetry_archive (finish_drain sty s create prompt ts) \<longrightarrow>
            filter (\<lambda>kv. fst kv = ts)
              (poetry_archive (finish_drain sty s2 create2 prompt2 ts))
              = [(ts, \<lparr>poetry = fst (generate_poetry create2 prompt2),
                       packets = map vars (packet_buffer s2),
                       style = style_value sty, generated_at = ts\<rparr>)])"
proof -
  have d1: "distinct (map fst (poetry_archive (finish_drain sty s create prompt ts)))"
    using assms by (simp add: finish_drain_archive distinct_setitem)
  show ?thesis
    using assms d1
    by (simp add: finish_drain_archive filter_setitem length_setitem_present
        map_of_setitem_other)
qed

theorem same_key_overwrites_witness:
  "distinct (map fst (poetry_archive archived_state))
   \<and> ''t1'' \<in> fst ` set (poetry_archive archived_state)
   \<and> filter (\<lambda>kv. fst kv = ''t1'')
       (poetry_archive (finish_drain PESSOA archived_state failing_service ''prompt'' ''t1''))
       = [(''t1'', \<lparr>poetry = ''Error generating poetic response'',
                     packets = [vars (bare_record 6)],
                     style = ''pessoa'', generated_at = ''t1''\<rparr>)]"
proof -
  have h1: "distinct (map fst (poetry_archive archived_state))"
    by (simp add: archived_state_def)
  have h2: "''t1'' \<in> fst ` set (poetry_archive archived_state)"
    by (simp add: archived_state_def)
  from same_key_overwrites [OF h1, of "''t1''" PESSOA failing_service "''prompt''"] h2
  have "filter (\<lambda>kv. fst kv = ''t1'')
       (poetry_archive (finish_drain PESSOA archived_state failing_service ''prompt'' ''t1''))
       = [(''t1'', \<lparr>poetry = fst (generate_poetry failing_service ''prompt''),
                      packets = map vars (packet_buffer archived_state),
                      style = style_value PESSOA, generated_at = ''t1''\<rparr>)]"
    by blast
  with h1 h2 show ?thesis
    by (simp add: generate_poetry_failing archived_state_def)
qed

subsection \<open>C9: what is saved can be read back\<close>

lemma foldl_setitem_distinct:
  "distinct (map fst archive) \<Longrightarrow> fst ` set acc \<inter> fst ` set archive = {} \<Longrightarrow>
   foldl (\<lambda>d (ts, entry). setitem d ts (f entry)) acc archive
     = acc @ map (\<lambda>(ts, entry). (ts, f entry)) archive"
proof (induction archive arbitrary: acc)
  case Nil
  then show ?case by simp
next
  case (Cons a archive)
  obtain k e where a: "a = (k, e)" by (cases a)
  from Cons.prems have fresh: "k \<notin> fst ` set acc" by (auto simp: a)
  from Cons.prems have d: "distinct (map fst archive)" by simp
  from Cons.prems have "fst ` set (acc @ [(k, f e)]) \<inter> fst ` set archive = {}"
    by (auto simp: a)
  from Cons.IH [OF d this] show ?case
    by (simp add: a setitem_fresh [OF fresh])
qed

lemma archive_dict_distinct:
  "distinct (map fst archive) \<Longrightarrow>
   archive_dict archive = PDict (map (\<lambda>(ts, entry). (ts, entry_dict entry)) archive)"
  unfolding archive_dict_def using foldl_setitem_distinct [of archive "[]" entry_dict] by simp

lemma load_entry_dict: "load_entry (entry_dict entry) = Some entry"
  by (simp add: load_entry_def entry_dict_def)

lemma load_items_map:
  "load_items (map (\<lambda>(ts, entry). (ts, entry_dict entry)) archive) = Some archive"
  by (induction archive) (auto simp: load_entry_dict)

text \<open>
  C9: for every archive (its keys distinct, as the keys of a dictionary are), the
  value \<open>save_archive\<close> writes holds, under each key and in the same order, an object
  with the entry's poetry, packet field-maps, style and timestamp; reading that value
  back gives the archive again, entry for entry and field for field.
\<close>

theorem save_load_roundtrip:
  assumes "distinct (map fst (poetry_archive s))"
  shows "archive_dict (poetry_archive s)
      = PDict (map (\<lambda>(ts, entry). (ts,
          PDict [(''poetry'', PStr (poetry entry)), (''packets'', PList (packets entry)),
                 (''style'', PStr (style entry)),
                 (''generated_at'', PStr (generated_at entry))])) (poetry_archive s))
    \<and> load_archive (archive_dict (poetry_archive s)) = Some (poetry_archive s)
    \<and> map_option load_archive (fst (save_archive s None file))
        = Some (Some (poetry_archive s))"
proof -
  have written: "archive_dict (poetry_archive s)
      = PDict (map (\<lambda>(ts, entry). (ts, entry_dict entry)) (poetry_archive s))"
    using assms by (rule archive_dict_distinct)
  have loaded: "load_archive (archive_dict (poetry_archive s)) = Some (poetry_archive s)"
    by (simp add: written load_archive_def load_items_map)
  have saved: "fst (save_archive s None file) = Some (archive_dict (poetry_archive s))"
    by (simp add: save_archive_def)
  from written have "archive_dict (poetry_archive s)
      = PDict (map (\<lambda>(ts, entry). (ts,
          PDict [(''poetry'', PStr (poetry entry)), (''packets'', PList (packets entry)),
                 (''style'', PStr (style entry)),
                 (''generated_at'', PStr (generated_at entry))])) (poetry_archive s))"
    by (simp add: entry_dict_def)
  with loaded saved show ?thesis by simp
qed

theorem save_load_roundtrip_witness:
  "distinct (map fst (poetry_archive archived_state))
   \<and> load_archive (archive_dict (poetry_archive archived_state)) = Some [(''t1'', sample_entry)]"
proof -
  have h: "distinct (map fst (poetry_archive archived_state))"
    by (simp add: archived_state_def)
  from save_load_roundtrip [OF h]
  have "load_archive (archive_dict (poetry_archive archived_state))
      = Some (poetry_archive archived_state)"
    by blast
  with h show ?thesis
    by (simp add: archived_state_def)
qed

subsection \<open>C10: every entry sits under its own timestamp\<close>

lemma key_consistent_setitem:
  "key_consistent d \<Longrightarrow> generated_at entry = k \<Longrightarrow> key_consistent (setitem d k entry)"
  unfolding key_consistent_def setitem_def by (rule list_all_update) simp_all

lemma key_consistent_step:
  "key_consistent (poetry_archive s) \<Longrightarrow> step sty s ev = Some s' \<Longrightarrow>
   key_consistent (poetry_archive s')"
  by (cases ev; cases "consumer s")
     (auto simp: capture_archive begin_drain_def finish_drain_archive key_consistent_setitem)

lemma key_consistent_run:
  "key_consistent (poetry_archive s) \<Longrightarrow> run sty s evs = Some s' \<Longrightarrow>
   key_consistent (poetry_archive s')"
  by (induction evs arbitrary: s) (auto split: option.splits dest: key_consistent_step)

lemma foldl_setitem_consistent:
  "key_consistent archive \<Longrightarrow> list_all item_consistent acc \<Longrightarrow>
   list_all item_consistent
     (foldl (\<lambda>d (ts, entry). setitem d ts (entry_dict entry)) acc archive)"
proof (induction archive arbitrary: acc)
  case Nil
  then show ?case by simp
next
  case (Cons a archive)
  obtain k e where a: "a = (k, e)" by (cases a)
  from Cons.prems have g: "generated_at e = k" and rest: "key_consistent archive"
    by (simp_all add: key_consistent_def a)
  have "item_consistent (k, entry_dict e)"
    by (simp add: item_consistent_def entry_dict_def g)
  with Cons.prems(2) have "list_all item_consistent (setitem acc k (entry_dict e))"
    unfolding setitem_def by (rule list_all_update)
  from Cons.IH [OF rest this] show ?case by (simp add: a)
qed

lemma artifact_consistent_archive_dict:
  "key_consistent archive \<Longrightarrow> artifact_consistent (archive_dict archive)"
  using foldl_setitem_consistent [of archive "[]"]
  by (simp add: artifact_consistent_def archive_dict_def)

text \<open>
  C10: the archive starts consistent (it is empty); every step of the pipeline keeps
  every entry under the key equal to its \<open>generated_at\<close>; \<open>save_archive\<close> leaves the
  archive as it is and the dictionary it writes gives each object the \<open>generated_at\<close>
  of its key. So the invariant holds, in memory and in the written artifact, in every
  state the pipeline reaches.
\<close>

theorem archive_key_consistency:
  "key_consistent (poetry_archive initial_state)
   \<and> (key_consistent (poetry_archive s) \<and> step sty s ev = Some s' \<longrightarrow>
        key_consistent (poetry_archive s'))
   \<and> (key_consistent (poetry_archive s) \<longrightarrow>
        key_consistent (poetry_archive (snd (save_archive s err file)))
        \<and> artifact_consistent (archive_dict (poetry_archive s))
        \<and> fst (save_archive s None file) = Some (archive_dict (poetry_archive s)))
   \<and> (\<forall>r. run sty initial_state evs = Some r \<longrightarrow>
        key_consistent (poetry_archive r)
        \<and> artifact_consistent (archive_dict (poetry_archive r)))"
proof -
  have init: "key_consistent (poetry_archive initial_state)"
    by (simp add: key_consistent_def initial_state_def)
  have save: "poetry_archive (snd (save_archive s err file)) = poetry_archive s"
    by (simp add: save_archive_def split: option.splits)
  have reach: "key_consistent (poetry_archive r)" if "run sty initial_state evs = Some r" for r
    using init that by (rule key_consistent_run)
  show ?thesis
    using init save reach
    by (auto simp: artifact_consistent_archive_dict save_archive_def dest: key_consistent_step)
qed

theorem archive_key_consistency_witness:
  "run PESSOA initial_state (five_captures @ [Poll, Completed poet_service ''t1''])
     = Some (finish_drain PESSOA pending_state poet_service
               (craft_prompt bare_batch PESSOA) ''t1'')
   \<and> poetry_archive
       (finish_drain PESSOA pending_state poet_service (craft_prompt bare_batch PESSOA) ''t1'')
       = [(''t1'', sample_entry)]
   \<and> key_consistent [(''t1'', sample_entry)]
   \<and> artifact_consistent (archive_dict [(''t1'', sample_entry)])"
proof -
  let ?r = "finish_drain PESSOA pending_state poet_service (craft_prompt bare_batch PESSOA) ''t1''"
  have h1: "run PESSOA initial_state (five_captures @ [Poll, Completed poet_service ''t1''])
      = Some ?r"
    by (simp add: run_append run_five_captures initial_state_def begin_drain_def bare_batch_def
        pending_state_def)
  have h2: "poetry_archive ?r = [(''t1'', sample_entry)]"
    by (simp add: finish_drain_archive generate_poetry_poet pending_state_def sample_entry_def
        setitem_def)
  from archive_key_consistency [of initial_state PESSOA Poll initial_state None None
      "five_captures @ [Poll, Completed poet_service ''t1'']"] h1
  have "key_consistent (poetry_archive ?r) \<and> artifact_consistent (archive_dict (poetry_archive ?r))"
    by blast
  with h1 h2 show ?thesis by simp
qed

end
